theory Spec2Isabelle
  imports
    Complex_Main
    "HOL-Library.Product_Lexorder"
    "HOL-Library.List_Lexorder"
    "HOL-Library.Char_ord"
    "HOL-Library.AList"
begin

section \<open>Data model\<close>

text \<open>
  A block is a pandas DataFrame after \<^verbatim>\<open>block.replace("", pd.NA)\<close>: a list of rows of
  cells, where a cell is either \<open>pd.NA\<close> (\<open>None\<close>) or a string. Row and column labels are
  not modelled: every label-based selection of the source (\<^verbatim>\<open>data.loc[selected, :]\<close>,
  \<^verbatim>\<open>df[keep_cols]\<close>) selects labels taken from the frame itself, which are unique, so
  it is the positional selection written here, and \<^verbatim>\<open>reset_index(drop=True)\<close> leaves
  the values as they are. A frame with no rows is \<open>[]\<close>, whatever columns it has:
  \<^verbatim>\<open>values.tolist()\<close> is \<open>[]\<close> for all of them.
\<close>

type_synonym cell = "string option"
type_synonym block = "cell list list"

definition shape0 :: "block \<Rightarrow> nat" where
  "shape0 b = length b"

definition shape1 :: "block \<Rightarrow> nat" where
  "shape1 b = (case b of [] \<Rightarrow> 0 | r # _ \<Rightarrow> length r)"

definition column :: "block \<Rightarrow> nat \<Rightarrow> cell list" where
  "column b j = map (\<lambda>r. r ! j) b"

definition rectangular :: "block \<Rightarrow> bool" where
  "rectangular b = list_all (\<lambda>r. length r = shape1 b) b"

section \<open>Table cleaner (utils.py)\<close>

text \<open>
  \<^verbatim>\<open>df.isna().mean(axis=...)\<close>: the fraction of NA cells of a row or column, NaN
  (\<open>None\<close>) when it has no cell. The fraction is the exact rational \<open>k / n\<close>; the source
  compares the binary64 quotient with the binary64 constant, which gives the same answer
  for the default 0.6 as long as a row or column has fewer than \<open>2 ^ 50\<close> cells. A
  comparison with NaN is false.
\<close>

definition na_mean :: "cell list \<Rightarrow> rat option" where
  "na_mean xs =
     (if xs = [] then None
      else Some (of_nat (length (filter (\<lambda>c. c = None) xs)) / of_nat (length xs)))"

definition le_ratio :: "rat option \<Rightarrow> rat \<Rightarrow> bool" where
  "le_ratio m t = (case m of None \<Rightarrow> False | Some x \<Rightarrow> x \<le> t)"

definition filter_rows_columns :: "block \<Rightarrow> rat \<Rightarrow> rat \<Rightarrow> block" where
  "filter_rows_columns df max_empty_row_ratio max_empty_col_ratio =
     (let keep_rows = filter (\<lambda>idx. le_ratio (na_mean (df ! idx)) max_empty_row_ratio)
                        [0..<length df];
          df1 = map (\<lambda>idx. df ! idx) keep_rows;
          keep_cols = filter (\<lambda>col. le_ratio (na_mean (column df1 col)) max_empty_col_ratio)
                        [0..<shape1 df]
      in map (\<lambda>r. map (\<lambda>col. r ! col) keep_cols) df1)"

text \<open>
  The two loops of \<^verbatim>\<open>trim_blank_edges\<close>. Each walks a pattern from index \<open>i\<close> with
  the current \<open>run\<close>, stops at the first non-blank entry (\<^verbatim>\<open>break\<close>), and moves the
  trim point on every blank entry once the run is longer than \<open>max_blank_streak\<close>.
\<close>

fun trim_start_loop :: "bool list \<Rightarrow> nat \<Rightarrow> int \<Rightarrow> nat \<Rightarrow> int \<Rightarrow> nat" where
  "trim_start_loop [] i run start max_blank_streak = start"
| "trim_start_loop (is_blank # rest) i run start max_blank_streak =
     (if is_blank then
        (let run' = run + 1;
             start' = (if run' > max_blank_streak then i + 1 else start)
         in trim_start_loop rest (i + 1) run' start' max_blank_streak)
      else start)"

fun trim_end_loop :: "bool list \<Rightarrow> nat \<Rightarrow> int \<Rightarrow> int \<Rightarrow> nat \<Rightarrow> int \<Rightarrow> int" where
  "trim_end_loop [] i run end n max_blank_streak = end"
| "trim_end_loop (is_blank # rest) i run end n max_blank_streak =
     (if is_blank then
        (let run' = run + 1;
             end' = (if run' > max_blank_streak then int n - 1 - (int i + 1) else end)
         in trim_end_loop rest (i + 1) run' end' n max_blank_streak)
      else end)"

text \<open>
  \<^verbatim>\<open>labels[start : end + 1]\<close> with \<open>0 \<le> start\<close>: a stop below zero would count from the
  end of the list in Python, and is written out.
\<close>

definition py_slice :: "'a list \<Rightarrow> nat \<Rightarrow> int \<Rightarrow> 'a list" where
  "py_slice xs start stop =
     (let stop' = (if stop < 0 then max 0 (int (length xs) + stop) else stop)
      in drop start (take (nat stop') xs))"

definition blank_pattern :: "block \<Rightarrow> bool \<Rightarrow> bool list" where
  "blank_pattern data by_rows =
     (if by_rows then map (\<lambda>r. list_all (\<lambda>c. c = None) r) data
      else map (\<lambda>j. list_all (\<lambda>c. c = None) (column data j)) [0..<shape1 data])"

definition trim_start :: "bool list \<Rightarrow> int \<Rightarrow> nat" where
  "trim_start pattern max_blank_streak = trim_start_loop pattern 0 0 0 max_blank_streak"

definition trim_end :: "bool list \<Rightarrow> int \<Rightarrow> int" where
  "trim_end pattern max_blank_streak =
     trim_end_loop (rev pattern) 0 0 (int (length pattern) - 1) (length pattern)
       max_blank_streak"

definition trim_blank_edges :: "block \<Rightarrow> bool \<Rightarrow> int \<Rightarrow> block" where
  "trim_blank_edges data by_rows max_blank_streak =
     (let pattern = blank_pattern data by_rows;
          start = trim_start pattern max_blank_streak;
          end = trim_end pattern max_blank_streak
      in if by_rows then py_slice data start (end + 1)
         else map (\<lambda>r. py_slice r start (end + 1)) data)"

definition clean_up_table :: "block \<Rightarrow> rat \<Rightarrow> rat \<Rightarrow> int \<Rightarrow> block" where
  "clean_up_table table max_empty_row_ratio max_empty_col_ratio max_blank_streak =
     (let df = filter_rows_columns table max_empty_row_ratio max_empty_col_ratio;
          df = trim_blank_edges df True max_blank_streak;
          df = trim_blank_edges df False max_blank_streak
      in df)"

text \<open>The call \<^verbatim>\<open>clean_up_table(block)\<close> with the default arguments.\<close>

definition clean_up_table_default :: "block \<Rightarrow> block" where
  "clean_up_table_default table = clean_up_table table (6 / 10) (6 / 10) 1"

text \<open>The length of the maximal run of blank entries at the start of a pattern.\<close>

definition leading_run :: "bool list \<Rightarrow> nat" where
  "leading_run pattern = length (takeWhile (\<lambda>b. b) pattern)"

definition trailing_run :: "bool list \<Rightarrow> nat" where
  "trailing_run pattern = leading_run (rev pattern)"

text \<open>
  The index range that edge trimming keeps, from the run lengths: everything when a run
  is within the tolerance, and nothing of the run otherwise.
\<close>

definition trim_from :: "bool list \<Rightarrow> int \<Rightarrow> nat" where
  "trim_from pattern t = (if int (leading_run pattern) \<le> t then 0 else leading_run pattern)"

definition trim_to :: "bool list \<Rightarrow> int \<Rightarrow> nat" where
  "trim_to pattern t =
     (if int (trailing_run pattern) \<le> t then length pattern
      else length pattern - trailing_run pattern)"

definition ex_trim :: block where
  "ex_trim = [[None, None], [None, None], [Some ''a'', None], [None, None]]"

text \<open>
  A block that needs no cleaning: rectangular, every row and every column passes the
  sparsity test of \<^verbatim>\<open>filter_rows_columns\<close> (a row with no cell has no blank fraction
  and does not pass), and no run of blank rows or columns at an edge is longer than the
  tolerance.
\<close>

definition already_clean :: "block \<Rightarrow> rat \<Rightarrow> rat \<Rightarrow> int \<Rightarrow> bool" where
  "already_clean b max_row max_col t =
     (rectangular b
      \<and> list_all (\<lambda>r. le_ratio (na_mean r) max_row) b
      \<and> list_all (\<lambda>j. le_ratio (na_mean (column b j)) max_col) [0..<shape1 b]
      \<and> int (leading_run (blank_pattern b True)) \<le> t
      \<and> int (trailing_run (blank_pattern b True)) \<le> t
      \<and> int (leading_run (blank_pattern b False)) \<le> t
      \<and> int (trailing_run (blank_pattern b False)) \<le> t)"

definition ex_clean :: block where
  "ex_clean = [[Some ''a'', None], [None, Some ''b'']]"

definition ex_sparse :: block where
  "ex_sparse = [[Some ''x'', None], [None, Some ''y''], [None, Some ''y'']]"

definition ex_margin :: block where
  "ex_margin =
     [[Some ''x'', None], [Some ''x'', None], [None, Some ''y''], [None, Some ''y''],
      [None, Some ''y''], [None, Some ''y'']]"

section \<open>Strings\<close>

text \<open>
  A \<open>char\<close> stands for a code point below 256. \<^verbatim>\<open>str.strip()\<close> removes the white
  space of Python at both ends: the code points 9 to 13, 28 to 32, 133 and 160 in this
  range.
\<close>

definition is_space :: "char \<Rightarrow> bool" where
  "is_space ch =
     (let n = (of_char ch :: nat)
      in (9 \<le> n \<and> n \<le> 13) \<or> (28 \<le> n \<and> n \<le> 32) \<or> n = 133 \<or> n = 160)"

definition strip :: "string \<Rightarrow> string" where
  "strip s = rev (dropWhile is_space (rev (dropWhile is_space s)))"

text \<open>\<^verbatim>\<open>str(n)\<close> for a natural number: its decimal digits.\<close>

definition digit_char :: "nat \<Rightarrow> char" where
  "digit_char d = char_of (48 + d)"

fun str_nat :: "nat \<Rightarrow> string" where
  "str_nat n = (if n < 10 then [digit_char n] else str_nat (n div 10) @ [digit_char (n mod 10)])"

section \<open>Title locator and boundary calculator (utils.py)\<close>

text \<open>
  The spreadsheet after \<^verbatim>\<open>pd.read_excel(..., header=None, dtype=str).fillna("")\<close>: its
  shape and the string of every cell. Only cells inside the shape are ever read.
\<close>

record frame =
  nrows :: nat
  ncols :: nat
  cell_at :: "nat \<Rightarrow> nat \<Rightarrow> string"

type_synonym title_position = "nat \<times> nat \<times> string"

datatype error = KeyError | IndexError | DecodeError string | HTTPException nat string

definition TABLE_TITLES :: "string list" where
  "TABLE_TITLES =
     [''INITIAL INVESTMENT'',
      ''CASHFLOW DETAILS'',
      ''DISCOUNT RATE'',
      ''WORKING CAPITAL'',
      ''GROWTH RATES'',
      ''SALVAGE VALUE'',
      ''OPERATING CASHFLOWS'',
      ''BOOK VALUE & DEPRECIATION'',
      ''Investment Measures'']"

definition scan_titles :: "frame \<Rightarrow> title_position list" where
  "scan_titles df =
     concat (map (\<lambda>r. concat (map (\<lambda>c.
        (let cell = strip (cell_at df r c)
         in if cell \<in> set TABLE_TITLES then [(r, c, cell)] else []))
       [0..<ncols df])) [0..<nrows df])"

definition locate_table_titles :: "frame \<Rightarrow> title_position list" where
  "locate_table_titles df = sort (scan_titles df)"

fun collect_title_rows :: "title_position list \<Rightarrow> nat list \<Rightarrow> nat list" where
  "collect_title_rows [] title_rows = title_rows"
| "collect_title_rows ((r, c, title) # rest) title_rows =
     collect_title_rows rest (if r \<notin> set title_rows then title_rows @ [r] else title_rows)"

fun row_boundaries_loop :: "nat list \<Rightarrow> nat \<Rightarrow> (nat \<rightharpoonup> nat) \<Rightarrow> (nat \<rightharpoonup> nat)" where
  "row_boundaries_loop [] total_rows row_boundaries = row_boundaries"
| "row_boundaries_loop [this_row] total_rows row_boundaries =
     row_boundaries(this_row \<mapsto> total_rows)"
| "row_boundaries_loop (this_row # next_row # rest) total_rows row_boundaries =
     row_boundaries_loop (next_row # rest) total_rows (row_boundaries(this_row \<mapsto> next_row))"

definition calculate_row_boundaries :: "title_position list \<Rightarrow> nat \<Rightarrow> (nat \<rightharpoonup> nat)" where
  "calculate_row_boundaries title_positions total_rows =
     row_boundaries_loop (sort (collect_title_rows title_positions [])) total_rows Map.empty"

fun group_titles_loop ::
  "title_position list \<Rightarrow> (nat \<rightharpoonup> nat list) \<Rightarrow> (nat \<rightharpoonup> nat list)" where
  "group_titles_loop [] row_to_cols = row_to_cols"
| "group_titles_loop ((r, c, title) # rest) row_to_cols =
     group_titles_loop rest
       (row_to_cols(r \<mapsto> (case row_to_cols r of None \<Rightarrow> [] | Some cs \<Rightarrow> cs) @ [c]))"

definition group_titles_by_row :: "title_position list \<Rightarrow> (nat \<rightharpoonup> nat list)" where
  "group_titles_by_row title_positions = group_titles_loop title_positions Map.empty"

fun build_segments :: "nat list \<Rightarrow> nat \<Rightarrow> (nat \<times> nat) list" where
  "build_segments [] total_cols = []"
| "build_segments [seg_start] total_cols = [(seg_start, total_cols)]"
| "build_segments (seg_start # seg_end # rest) total_cols =
     (seg_start, seg_end) # build_segments (seg_end # rest) total_cols"

definition determine_horizontal_boundaries ::
  "nat \<Rightarrow> nat \<Rightarrow> (nat \<rightharpoonup> nat list) \<Rightarrow> nat \<Rightarrow> error + (nat \<times> nat)" where
  "determine_horizontal_boundaries start_row start_col row_to_cols total_cols =
     (case row_to_cols start_row of
        None \<Rightarrow> Inl KeyError
      | Some cs \<Rightarrow>
          (let cols_on_this_row = sort cs
           in if length cols_on_this_row > 1 then
                (case find (\<lambda>(seg_left, seg_right). seg_left \<le> start_col \<and> start_col < seg_right)
                        (build_segments cols_on_this_row total_cols) of
                   Some seg \<Rightarrow> Inr seg
                 | None \<Rightarrow> Inr (0, total_cols))
              else Inr (0, total_cols)))"

section \<open>Table extractor (utils.py)\<close>

text \<open>
  \<^verbatim>\<open>df.iloc[top:bottom, left:right]\<close> clamps the slices to the shape. After
  \<^verbatim>\<open>replace("", pd.NA)\<close> the rows that are NA throughout are dropped, then the columns
  that are NA throughout in what is left.
\<close>

definition extract_table_block :: "frame \<Rightarrow> nat \<Rightarrow> nat \<Rightarrow> nat \<Rightarrow> nat \<Rightarrow> block" where
  "extract_table_block df top_row bottom left right =
     (let block = map (\<lambda>r. map (\<lambda>c. cell_at df r c) [left..<min right (ncols df)])
                    [top_row..<min bottom (nrows df)];
          block = map (map (\<lambda>s. if s = [] then None else Some s)) block;
          block = filter (\<lambda>r. \<not> list_all (\<lambda>c. c = None) r) block;
          keep = filter (\<lambda>j. \<not> list_all (\<lambda>c. c = None) (column block j)) [0..<shape1 block]
      in map (\<lambda>r. map (\<lambda>j. r ! j) keep) block)"

text \<open>
  The state of the loop of \<^verbatim>\<open>find_tables_in_spreadsheet\<close>. The dictionary
  \<open>extracted_tables\<close> is an association list in insertion order. \<open>emitted\<close> is a history
  variable that the source does not have: for every table stored, its anchor, its name
  and its source rectangle \<open>(top, bottom, left, right)\<close>.
\<close>

type_synonym rect = "nat \<times> nat \<times> nat \<times> nat"

record tables_state =
  already_used :: "bool list list"
  extracted_tables :: "(string \<times> block) list"
  title_counts :: "string \<rightharpoonup> nat"
  emitted :: "(title_position \<times> string \<times> rect) list"

text \<open>
  The marking loops. The mask is built with one row per grid row, all of the width of the
  grid, so \<^verbatim>\<open>already_used[rr][cc] = True\<close> is in range whenever the guard holds.
\<close>

definition mark_used :: "bool list list \<Rightarrow> nat \<Rightarrow> nat \<Rightarrow> nat \<Rightarrow> nat \<Rightarrow> bool list list" where
  "mark_used used top_row bottom left right =
     foldl (\<lambda>u rr. foldl (\<lambda>u cc.
        if rr < length u \<and> cc < length (u ! 0) then u[rr := (u ! rr)[cc := True]] else u)
       u [left..<right]) used [top_row..<bottom]"

definition next_title :: "(string \<rightharpoonup> nat) \<Rightarrow> string \<Rightarrow> (string \<rightharpoonup> nat) \<times> string" where
  "next_title counts base_title =
     (case counts base_title of
        Some n \<Rightarrow> (counts(base_title \<mapsto> n + 1), base_title @ '' ('' @ str_nat (n + 1) @ '')'')
      | None \<Rightarrow> (counts(base_title \<mapsto> 0), base_title))"

definition process_title ::
  "frame \<Rightarrow> (nat \<rightharpoonup> nat list) \<Rightarrow> (nat \<rightharpoonup> nat) \<Rightarrow> tables_state \<Rightarrow> title_position
     \<Rightarrow> error + tables_state" where
  "process_title df row_to_cols row_boundaries st pos =
     (case pos of (start_row, start_col, base_title) \<Rightarrow>
        if \<not> (start_row < length (already_used st)
               \<and> start_col < length (already_used st ! start_row)) then Inl IndexError
        else if already_used st ! start_row ! start_col then Inr st
        else
          (case next_title (title_counts st) base_title of (counts, title) \<Rightarrow>
             (case row_boundaries start_row of
                None \<Rightarrow> Inl KeyError
              | Some bottom \<Rightarrow>
                  (case determine_horizontal_boundaries start_row start_col row_to_cols
                          (ncols df) of
                     Inl e \<Rightarrow> Inl e
                   | Inr (left, right) \<Rightarrow>
                       (let top_row = start_row;
                            block = extract_table_block df top_row bottom left right
                        in if shape0 block \<ge> 2 \<and> shape1 block \<ge> 2 then
                             Inr (st\<lparr>already_used :=
                                        mark_used (already_used st) top_row bottom left right,
                                      extracted_tables :=
                                        AList.update title block (extracted_tables st),
                                      title_counts := counts,
                                      emitted :=
                                        emitted st @ [(pos, title, (top_row, bottom, left, right))]\<rparr>)
                           else Inr (st\<lparr>title_counts := counts\<rparr>))))))"

fun process_titles ::
  "frame \<Rightarrow> (nat \<rightharpoonup> nat list) \<Rightarrow> (nat \<rightharpoonup> nat) \<Rightarrow> tables_state \<Rightarrow> title_position list
     \<Rightarrow> error + tables_state" where
  "process_titles df row_to_cols row_boundaries st [] = Inr st"
| "process_titles df row_to_cols row_boundaries st (pos # rest) =
     (case process_title df row_to_cols row_boundaries st pos of
        Inl e \<Rightarrow> Inl e
      | Inr st' \<Rightarrow> process_titles df row_to_cols row_boundaries st' rest)"

definition initial_state :: "frame \<Rightarrow> tables_state" where
  "initial_state df =
     \<lparr>already_used = replicate (nrows df) (replicate (ncols df) False),
      extracted_tables = [],
      title_counts = Map.empty,
      emitted = []\<rparr>"

definition find_tables_run :: "frame \<Rightarrow> error + tables_state" where
  "find_tables_run df =
     (let title_positions = locate_table_titles df;
          row_to_cols = group_titles_by_row title_positions;
          row_boundaries = calculate_row_boundaries title_positions (nrows df)
      in process_titles df row_to_cols row_boundaries (initial_state df) title_positions)"

definition find_tables_in_spreadsheet :: "frame \<Rightarrow> error + (string \<times> block) list" where
  "find_tables_in_spreadsheet df =
     (case find_tables_run df of Inl e \<Rightarrow> Inl e | Inr st \<Rightarrow> Inr (extracted_tables st))"

section \<open>Conversion and the whole pipeline (utils.py)\<close>

definition convert_table_to_list :: "block \<Rightarrow> string list list" where
  "convert_table_to_list table =
     map (map (\<lambda>cell. case cell of None \<Rightarrow> ''<NA>'' | Some s \<Rightarrow> s)) table"

definition process_frame :: "frame \<Rightarrow> error + (string \<times> string list list) list" where
  "process_frame df =
     (case find_tables_in_spreadsheet df of
        Inl e \<Rightarrow> Inl e
      | Inr raw_tables \<Rightarrow>
          Inr (foldl (\<lambda>final_tables (title, block).
                 AList.update title (convert_table_to_list (clean_up_table_default block))
                   final_tables)
               [] raw_tables))"

text \<open>
  \<^verbatim>\<open>pd.read_excel\<close> is outside the repository: it is a parameter that either raises or
  gives the frame.
\<close>

type_synonym bytes = "char list"

definition process_excel_file ::
  "(bytes \<Rightarrow> error + frame) \<Rightarrow> bytes \<Rightarrow> error + (string \<times> string list list) list" where
  "process_excel_file read_excel excel_bytes =
     (case read_excel excel_bytes of Inl e \<Rightarrow> Inl e | Inr df \<Rightarrow> process_frame df)"

text \<open>A frame from its rows, for the examples.\<close>

definition frame_of :: "string list list \<Rightarrow> frame" where
  "frame_of g =
     \<lparr>nrows = length g,
      ncols = (case g of [] \<Rightarrow> 0 | r # _ \<Rightarrow> length r),
      cell_at = (\<lambda>r c. g ! r ! c)\<rparr>"

definition ex_title_row :: frame where
  "ex_title_row =
     frame_of [[''DISCOUNT RATE'', '''', '''', '''', ''''],
               [''a'', ''b'', ''c'', ''d'', ''e'']]"

section \<open>Table store and queries (main.py)\<close>

text \<open>
  \<^verbatim>\<open>str.lower()\<close> on code points below 256: the ASCII capitals and the capitals of
  Latin-1 (192 to 222 but 215, the multiplication sign) move up by 32.
\<close>

definition lower_char :: "char \<Rightarrow> char" where
  "lower_char ch =
     (let n = (of_char ch :: nat)
      in if (65 \<le> n \<and> n \<le> 90) \<or> (192 \<le> n \<and> n \<le> 222 \<and> n \<noteq> 215) then char_of (n + 32)
         else ch)"

definition lower :: "string \<Rightarrow> string" where
  "lower s = map lower_char s"

definition endswith :: "string \<Rightarrow> string \<Rightarrow> bool" where
  "endswith s suffix =
     (length suffix \<le> length s \<and> drop (length s - length suffix) s = suffix)"

text \<open>The global dictionary \<^verbatim>\<open>db\<close>, passed in and returned.\<close>

type_synonym db = "(string \<times> string list list) list"

definition error_text :: "error \<Rightarrow> string" where
  "error_text e =
     (case e of
        KeyError \<Rightarrow> ''KeyError''
      | IndexError \<Rightarrow> ''IndexError''
      | DecodeError msg \<Rightarrow> msg
      | HTTPException code detail \<Rightarrow> detail)"

definition db_update :: "db \<Rightarrow> (string \<times> string list list) list \<Rightarrow> db" where
  "db_update d tables = foldl (\<lambda>d (name, rows). AList.update name rows d) d tables"

definition upload_excel ::
  "(bytes \<Rightarrow> error + frame) \<Rightarrow> db \<Rightarrow> string \<Rightarrow> bytes \<Rightarrow> (error + string list) \<times> db" where
  "upload_excel read_excel d filename content =
     (let fname = lower filename
      in if \<not> (endswith fname ''.xls'' \<or> endswith fname ''.xlsx'') then
           (Inl (HTTPException 400 ''Only .xls/.xlsx files allowed''), d)
         else
           (case process_excel_file read_excel content of
              Inl e \<Rightarrow> (Inl (HTTPException 500 (''Error processing Excel: '' @ error_text e)), d)
            | Inr tables \<Rightarrow>
                (let d' = db_update [] tables in (Inr (map fst d'), d'))))"

definition ensure_uploaded :: "db \<Rightarrow> error + unit" where
  "ensure_uploaded d =
     (if d = [] then Inl (HTTPException 400 ''No Excel file uploaded yet'') else Inr ())"

definition list_tables :: "db \<Rightarrow> error + string list" where
  "list_tables d = (case ensure_uploaded d of Inl e \<Rightarrow> Inl e | Inr _ \<Rightarrow> Inr (map fst d))"




















definition failing_reader :: "bytes \<Rightarrow> error + frame" where
  "failing_reader content = Inl (DecodeError ''Unsupported format, or corrupt file'')"

definition ex_db :: db where
  "ex_db = [(''DISCOUNT RATE'', [[''Rate'', ''0.1'']])]"

section \<open>Rectangles of anchors\<close>

text \<open>
  The smallest element of \<open>xs\<close> above \<open>x\<close>, or \<open>d\<close> when there is none: the next anchor row
  after a row, and the next title column after a column.
\<close>

definition next_after :: "nat list \<Rightarrow> nat \<Rightarrow> nat \<Rightarrow> nat" where
  "next_after xs x d =
     (let ys = filter (\<lambda>y. x < y) xs in if ys = [] then d else Min (set ys))"

definition cols_on_row :: "title_position list \<Rightarrow> nat \<Rightarrow> nat list" where
  "cols_on_row title_positions r =
     map (\<lambda>p. fst (snd p)) (filter (\<lambda>p. fst p = r) title_positions)"

definition position :: "title_position \<Rightarrow> nat \<times> nat" where
  "position p = (fst p, fst (snd p))"

text \<open>
  The rectangle \<open>(top, bottom, left, right)\<close> that the boundary calculator gives an
  anchor, in closed form, and the cells \<open>[top, bottom) \<times> [left, right)\<close> of a rectangle.
\<close>

definition anchor_rect :: "title_position list \<Rightarrow> nat \<Rightarrow> nat \<Rightarrow> title_position \<Rightarrow> rect" where
  "anchor_rect title_positions total_rows total_cols p =
     (case p of (r, c, title) \<Rightarrow>
        (r, next_after (map fst title_positions) r total_rows,
         if length (cols_on_row title_positions r) = 1 then (0, total_cols)
         else (c, next_after (cols_on_row title_positions r) c total_cols)))"

definition in_rect :: "rect \<Rightarrow> nat \<times> nat \<Rightarrow> bool" where
  "in_rect rc x =
     (case rc of (top_row, bottom, left, right) \<Rightarrow>
        top_row \<le> fst x \<and> fst x < bottom \<and> left \<le> snd x \<and> snd x < right)"

definition ex_sole_title :: "title_position list" where
  "ex_sole_title = [(5, 2, ''DISCOUNT RATE''), (12, 0, ''GROWTH RATES'')]"

definition ex_two_titles :: "title_position list" where
  "ex_two_titles =
     [(3, 0, ''DISCOUNT RATE''), (3, 5, ''GROWTH RATES''), (9, 0, ''SALVAGE VALUE'')]"

text \<open>Two rectangles share a cell.\<close>

definition rects_overlap :: "rect \<Rightarrow> rect \<Rightarrow> bool" where
  "rects_overlap a b =
     (case a of (top_a, bottom_a, left_a, right_a) \<Rightarrow>
      case b of (top_b, bottom_b, left_b, right_b) \<Rightarrow>
        max top_a top_b < min bottom_a bottom_b \<and> max left_a left_b < min right_a right_b)"

section \<open>The extractor loop in closed form\<close>

text \<open>
  What the loop of \<^verbatim>\<open>find_tables_in_spreadsheet\<close> computes for an anchor, from the
  title positions of the frame: the block cut at the anchor's rectangle, whether the block
  is kept (at least 2 rows and 2 columns), and the name, which is the base title for the
  first anchor with that title and the base title with \<open>(k)\<close> after \<open>k\<close> earlier anchors
  with it.
\<close>

definition title_of :: "title_position \<Rightarrow> string" where
  "title_of p = snd (snd p)"

definition anchor_block :: "frame \<Rightarrow> title_position list \<Rightarrow> title_position \<Rightarrow> block" where
  "anchor_block df tp p =
     (case anchor_rect tp (nrows df) (ncols df) p of
        (top_row, bottom, left, right) \<Rightarrow> extract_table_block df top_row bottom left right)"

definition keepable :: "frame \<Rightarrow> title_position list \<Rightarrow> title_position \<Rightarrow> bool" where
  "keepable df tp p = (2 \<le> shape0 (anchor_block df tp p) \<and> 2 \<le> shape1 (anchor_block df tp p))"

definition occurrences :: "title_position list \<Rightarrow> string \<Rightarrow> nat" where
  "occurrences ps base_title = length (filter (\<lambda>p. title_of p = base_title) ps)"

definition resolved_name :: "string \<Rightarrow> nat \<Rightarrow> string" where
  "resolved_name base_title k =
     (if k = 0 then base_title else base_title @ '' ('' @ str_nat k @ '')'')"

fun emitted_from ::
  "frame \<Rightarrow> title_position list \<Rightarrow> title_position list \<Rightarrow> title_position list
     \<Rightarrow> (title_position \<times> string \<times> rect) list" where
  "emitted_from df tp seen [] = []"
| "emitted_from df tp seen (p # ps) =
     (if keepable df tp p then
        [(p, resolved_name (title_of p) (occurrences seen (title_of p)),
          anchor_rect tp (nrows df) (ncols df) p)]
      else [])
     @ emitted_from df tp (seen @ [p]) ps"

text \<open>The entries of the anchors of one title, the first of them numbered \<open>k\<close>.\<close>

fun title_entries ::
  "frame \<Rightarrow> title_position list \<Rightarrow> nat \<Rightarrow> title_position list
     \<Rightarrow> (title_position \<times> string \<times> rect) list" where
  "title_entries df tp k [] = []"
| "title_entries df tp k (p # ps) =
     (if keepable df tp p then
        [(p, resolved_name (title_of p) k, anchor_rect tp (nrows df) (ncols df) p)]
      else [])
     @ title_entries df tp (k + 1) ps"

text \<open>The history of a run: the tables stored, in order; none when the run fails.\<close>

definition emitted_tables :: "frame \<Rightarrow> (title_position \<times> string \<times> rect) list" where
  "emitted_tables df = (case find_tables_run df of Inl e \<Rightarrow> [] | Inr st \<Rightarrow> emitted st)"

section \<open>Edge trimming\<close>

lemma leading_run_Nil [simp]: "leading_run [] = 0"
  by (simp add: leading_run_def)

lemma leading_run_Cons [simp]:
  "leading_run (b # bs) = (if b then Suc (leading_run bs) else 0)"
  by (simp add: leading_run_def)

lemma leading_run_le_length: "leading_run p \<le> length p"
  by (simp add: leading_run_def length_takeWhile_le)

lemma trim_start_loop_eq:
  "trim_start_loop p i run start t =
     (if 0 < leading_run p \<and> t < run + int (leading_run p) then i + leading_run p else start)"
proof (induction p arbitrary: i run start)
  case Nil
  show ?case by simp
next
  case (Cons b bs)
  show ?case
  proof (cases b)
    case False
    then show ?thesis by simp
  next
    case True
    show ?thesis
    proof (cases "leading_run bs = 0")
      case True
      with \<open>b\<close> show ?thesis by (simp add: Cons.IH Let_def)
    next
      case False
      with \<open>b\<close> show ?thesis by (auto simp: Cons.IH Let_def)
    qed
  qed
qed

lemma trim_end_loop_eq:
  "trim_end_loop p i run e n t =
     (if 0 < leading_run p \<and> t < run + int (leading_run p)
      then int n - 1 - (int i + int (leading_run p)) else e)"
proof (induction p arbitrary: i run e)
  case Nil
  show ?case by simp
next
  case (Cons b bs)
  show ?case
  proof (cases b)
    case False
    then show ?thesis by simp
  next
    case True
    show ?thesis
    proof (cases "leading_run bs = 0")
      case True
      with \<open>b\<close> show ?thesis by (simp add: Cons.IH Let_def)
    next
      case False
      with \<open>b\<close> show ?thesis by (auto simp: Cons.IH Let_def)
    qed
  qed
qed

lemma trim_start_eq:
  "trim_start p t = (if t < int (leading_run p) then leading_run p else 0)"
  by (auto simp: trim_start_def trim_start_loop_eq)

lemma trim_end_eq:
  "trim_end p t + 1 =
     (if t < int (trailing_run p) then int (length p) - int (trailing_run p)
      else int (length p))"
  by (auto simp: trim_end_def trim_end_loop_eq trailing_run_def)

lemma py_slice_nonneg:
  "0 \<le> stop \<Longrightarrow> py_slice xs start stop = drop start (take (nat stop) xs)"
  by (simp add: py_slice_def)

lemma length_blank_pattern_rows: "length (blank_pattern data True) = length data"
  by (simp add: blank_pattern_def)

lemma length_blank_pattern_cols: "length (blank_pattern data False) = shape1 data"
  by (simp add: blank_pattern_def)

lemma trailing_run_le_length: "trailing_run p \<le> length p"
  using leading_run_le_length [of "rev p"] by (simp add: trailing_run_def)

lemma trim_end_nonneg: "0 \<le> trim_end p t + 1"
  using trailing_run_le_length [of p] by (simp add: trim_end_eq)

lemma trim_end_nat:
  "nat (trim_end p t + 1) =
     (if t < int (trailing_run p) then length p - trailing_run p else length p)"
  using trailing_run_le_length [of p] by (simp add: trim_end_eq nat_diff_distrib')

lemma trim_blank_edges_rows:
  "trim_blank_edges data True t =
     drop (trim_from (blank_pattern data True) t)
       (take (trim_to (blank_pattern data True) t) data)"
  by (simp add: trim_blank_edges_def Let_def py_slice_nonneg trim_end_nonneg trim_end_nat
      trim_start_eq trim_from_def trim_to_def not_less)

lemma trim_blank_edges_cols:
  "trim_blank_edges data False t =
     map (\<lambda>r. drop (trim_from (blank_pattern data False) t)
                 (take (trim_to (blank_pattern data False) t) r)) data"
  by (simp add: trim_blank_edges_def Let_def py_slice_nonneg trim_end_nonneg trim_end_nat
      trim_start_eq trim_from_def trim_to_def not_less)

text \<open>
  C2 (as the code has it). On either axis the block is cut to the index range
  \<open>[trim_from, trim_to)\<close> of its blank pattern: a leading run of at most \<open>t\<close> blank rows is
  kept whole (\<open>trim_from = 0\<close>), a leading run longer than \<open>t\<close> is cut whole
  (\<open>trim_from\<close> is the length of the run, so no blank row stays at that edge); the
  trailing run is treated the same way through \<open>trim_to\<close>, and columns are treated as
  rows are.
\<close>

theorem trim_blank_edges_cuts_whole_run:
  "trim_blank_edges data True t =
     drop (trim_from (blank_pattern data True) t)
       (take (trim_to (blank_pattern data True) t) data)
   \<and> trim_blank_edges data False t =
     map (\<lambda>r. drop (trim_from (blank_pattern data False) t)
                 (take (trim_to (blank_pattern data False) t) r)) data"
  using trim_blank_edges_rows [of data t] trim_blank_edges_cols [of data t] by simp

theorem trim_blank_edges_cuts_whole_run_witness:
  "trim_blank_edges ex_trim True 1 = [[Some ''a'', None], [None, None]]
   \<and> trim_blank_edges ex_trim False 0 = [[None], [None], [Some ''a''], [None]]"
proof -
  have p: "blank_pattern ex_trim True = [True, True, False, True]"
    "blank_pattern ex_trim False = [False, True]"
    by (simp_all add: blank_pattern_def ex_trim_def shape1_def column_def)
  show ?thesis
    using trim_blank_edges_cuts_whole_run [of ex_trim 1]
      trim_blank_edges_cuts_whole_run [of ex_trim 0]
    by (simp add: p trim_from_def trim_to_def trailing_run_def) (simp add: ex_trim_def)
qed

text \<open>
  C2 (as the claim states it): a leading run longer than the tolerance would still leave
  \<open>t\<close> blank rows at the edge, so that the run left after trimming has
  \<open>min t run\<close> rows. With two blank rows above the data and \<open>t = 1\<close> the code leaves none.
\<close>

theorem trim_blank_edges_keeps_tolerance_counterexample:
  "\<not> (leading_run (blank_pattern (trim_blank_edges ex_trim True 1) True)
        = min (nat 1) (leading_run (blank_pattern ex_trim True)))"
  by (simp add: trim_blank_edges_rows trim_from_def trim_to_def trailing_run_def
      blank_pattern_def ex_trim_def)

section \<open>Sparsity filtering and the whole cleaner\<close>

lemma map_nth_filter: "map (\<lambda>i. xs ! i) (filter (\<lambda>i. P (xs ! i)) [0..<length xs]) = filter P xs"
proof -
  have "filter P (map (\<lambda>i. xs ! i) [0..<length xs]) = filter P xs" by (simp add: map_nth)
  then show ?thesis by (simp add: filter_map comp_def)
qed

lemma filter_rows_columns_alt:
  "filter_rows_columns df mr mc =
     (let df1 = filter (\<lambda>r. le_ratio (na_mean r) mr) df;
          keep_cols = filter (\<lambda>col. le_ratio (na_mean (column df1 col)) mc) [0..<shape1 df]
      in map (\<lambda>r. map (\<lambda>col. r ! col) keep_cols) df1)"
  unfolding filter_rows_columns_def Let_def
    map_nth_filter [of df "\<lambda>r. le_ratio (na_mean r) mr"] ..

lemma rectangular_row: "rectangular b \<Longrightarrow> r \<in> set b \<Longrightarrow> length r = shape1 b"
  by (simp add: rectangular_def list_all_iff)

lemma filter_id_if: "list_all P xs \<Longrightarrow> filter P xs = xs"
  by (induction xs) auto

lemma map_rows_id: "(\<And>r. r \<in> set b \<Longrightarrow> f r = r) \<Longrightarrow> map f b = b"
  by (induction b) auto

lemma filter_rows_columns_clean:
  assumes "rectangular b" "list_all (\<lambda>r. le_ratio (na_mean r) mr) b"
    "list_all (\<lambda>j. le_ratio (na_mean (column b j)) mc) [0..<shape1 b]"
  shows "filter_rows_columns b mr mc = b"
proof -
  have 1: "filter (\<lambda>r. le_ratio (na_mean r) mr) b = b" using assms(2) by (rule filter_id_if)
  have 2: "filter (\<lambda>col. le_ratio (na_mean (column b col)) mc) [0..<shape1 b] = [0..<shape1 b]"
    using assms(3) by (rule filter_id_if)
  have 3: "map (\<lambda>r. map (\<lambda>col. r ! col) [0..<shape1 b]) b = b"
  proof (rule map_rows_id)
    fix r assume "r \<in> set b"
    then have "length r = shape1 b" using assms(1) by (rule rectangular_row[rotated])
    then show "map (\<lambda>col. r ! col) [0..<shape1 b] = r" using map_nth [of r] by simp
  qed
  show ?thesis by (simp add: filter_rows_columns_alt Let_def 1 2 3)
qed

lemma trim_rows_id:
  "int (leading_run (blank_pattern b True)) \<le> t \<Longrightarrow> int (trailing_run (blank_pattern b True)) \<le> t
   \<Longrightarrow> trim_blank_edges b True t = b"
  by (simp add: trim_blank_edges_rows trim_from_def trim_to_def length_blank_pattern_rows)

lemma trim_cols_id:
  assumes "rectangular b" "int (leading_run (blank_pattern b False)) \<le> t"
    "int (trailing_run (blank_pattern b False)) \<le> t"
  shows "trim_blank_edges b False t = b"
proof -
  have "map (\<lambda>r. take (shape1 b) r) b = b"
    by (rule map_rows_id) (simp add: rectangular_row [OF assms(1)])
  then show ?thesis using assms(2,3)
    by (simp add: trim_blank_edges_cols trim_from_def trim_to_def length_blank_pattern_cols)
qed

lemma leading_run_nth: "i < leading_run p \<Longrightarrow> p ! i"
proof (induction p arbitrary: i)
  case Nil
  then show ?case by simp
next
  case (Cons b bs)
  then show ?case by (cases i) (auto split: if_splits)
qed

lemma leading_run_all_False: "(\<And>b. b \<in> set p \<Longrightarrow> \<not> b) \<Longrightarrow> leading_run p = 0"
  by (cases p) auto

lemma trailing_run_all_False:
  assumes "\<And>b. b \<in> set p \<Longrightarrow> \<not> b"
  shows "trailing_run p = 0"
proof -
  have "\<And>b. b \<in> set (rev p) \<Longrightarrow> \<not> b" using assms by simp
  then show ?thesis unfolding trailing_run_def by (rule leading_run_all_False)
qed

lemma trailing_run_nth:
  assumes "i < length p" "length p - trailing_run p \<le> i"
  shows "p ! i"
proof -
  have "length p - 1 - i < leading_run (rev p)"
    using assms by (simp add: trailing_run_def)
  then have "rev p ! (length p - 1 - i)" by (rule leading_run_nth)
  then show ?thesis using assms(1) by (simp add: rev_nth)
qed

lemma nonblank_row_kept:
  assumes "r \<in> set data" "\<not> list_all (\<lambda>c. c = None) r"
  shows "r \<in> set (trim_blank_edges data True t)"
proof -
  let ?p = "blank_pattern data True"
  from assms(1) obtain i where i: "i < length data" "data ! i = r"
    by (auto simp: in_set_conv_nth)
  have len: "length ?p = length data" by (rule length_blank_pattern_rows)
  have pi: "\<not> ?p ! i" using i assms(2) by (simp add: blank_pattern_def)
  have lo: "trim_from ?p t \<le> i"
  proof (rule ccontr)
    assume "\<not> trim_from ?p t \<le> i"
    then have "i < leading_run ?p" by (simp add: trim_from_def split: if_splits)
    then show False using leading_run_nth pi by blast
  qed
  have hi: "i < trim_to ?p t"
  proof (rule ccontr)
    assume "\<not> i < trim_to ?p t"
    then have "length ?p - trailing_run ?p \<le> i"
      using i(1) len by (simp add: trim_to_def split: if_splits)
    then show False using trailing_run_nth [of i ?p] pi i(1) len by simp
  qed
  have "i - trim_from ?p t < length (drop (trim_from ?p t) (take (trim_to ?p t) data))"
    using lo hi i(1) by simp
  moreover have "drop (trim_from ?p t) (take (trim_to ?p t) data) ! (i - trim_from ?p t) = r"
    using lo hi i by simp
  ultimately show ?thesis
    unfolding trim_blank_edges_rows by (metis nth_mem)
qed

lemma trim_rows_subset: "set (trim_blank_edges data True t) \<subseteq> set data"
  unfolding trim_blank_edges_rows
  by (meson set_drop_subset set_take_subset subset_trans)

lemma shape1_const: "b \<noteq> [] \<Longrightarrow> (\<And>r. r \<in> set b \<Longrightarrow> length r = n) \<Longrightarrow> shape1 b = n"
  by (cases b) (simp_all add: shape1_def)

lemma trim_cols_dense:
  assumes len: "\<And>r. r \<in> set d \<Longrightarrow> length r = n"
    and dense: "\<And>k. k < n \<Longrightarrow> \<exists>r \<in> set d. r ! k \<noteq> None"
  shows "trim_blank_edges d False t = d"
proof (cases "d = []")
  case True
  then show ?thesis by (simp add: trim_blank_edges_cols)
next
  case False
  have sh: "shape1 d = n" using False len by (rule shape1_const)
  have nb: "\<not> b" if "b \<in> set (blank_pattern d False)" for b
  proof -
    from that obtain k where k: "k < n" "b = list_all (\<lambda>c. c = None) (column d k)"
      by (auto simp: blank_pattern_def sh)
    from dense [OF k(1)] show ?thesis by (auto simp: k(2) column_def list_all_iff)
  qed
  have l0: "leading_run (blank_pattern d False) = 0" using nb by (rule leading_run_all_False)
  have t0: "trailing_run (blank_pattern d False) = 0" using nb by (rule trailing_run_all_False)
  have "map (\<lambda>r. take n r) d = d" by (rule map_rows_id) (simp add: len)
  then show ?thesis
    by (simp add: trim_blank_edges_cols trim_from_def trim_to_def l0 t0
        length_blank_pattern_cols sh)
qed

lemma na_mean_lt_one:
  assumes "le_ratio (na_mean xs) mc" "mc < 1"
  shows "\<exists>c \<in> set xs. c \<noteq> None"
proof (rule ccontr)
  assume "\<not> (\<exists>c \<in> set xs. c \<noteq> None)"
  then have all: "filter (\<lambda>c. c = None) xs = xs" by (simp add: filter_id_if list_all_iff)
  from assms(1) have ne: "xs \<noteq> []" by (auto simp: le_ratio_def na_mean_def split: if_splits)
  then have "na_mean xs = Some 1" by (simp add: na_mean_def all)
  with assms show False by (simp add: le_ratio_def)
qed

lemma filter_rows_columns_dense:
  fixes df :: block and mr mc :: rat
  assumes "mc < 1"
  defines "F \<equiv> filter_rows_columns df mr mc"
  defines "keep \<equiv> filter (\<lambda>col. le_ratio (na_mean (column (filter (\<lambda>r. le_ratio (na_mean r) mr) df) col)) mc) [0..<shape1 df]"
  shows "\<And>r. r \<in> set F \<Longrightarrow> length r = length keep"
    and "\<And>k. k < length keep \<Longrightarrow> \<exists>r \<in> set F. r ! k \<noteq> None"
proof -
  let ?df1 = "filter (\<lambda>r. le_ratio (na_mean r) mr) df"
  have F: "F = map (\<lambda>r. map (\<lambda>col. r ! col) keep) ?df1"
    by (simp add: F_def keep_def filter_rows_columns_alt Let_def)
  show "\<And>r. r \<in> set F \<Longrightarrow> length r = length keep" by (auto simp: F)
  fix k assume k: "k < length keep"
  then have "keep ! k \<in> set keep" by simp
  then have "le_ratio (na_mean (column ?df1 (keep ! k))) mc" by (simp add: keep_def)
  from na_mean_lt_one [OF this assms(1)]
  obtain r where r: "r \<in> set ?df1" "r ! (keep ! k) \<noteq> None" by (auto simp: column_def)
  have "map (\<lambda>col. r ! col) keep \<in> set F" using r(1) by (auto simp: F)
  moreover have "map (\<lambda>col. r ! col) keep ! k \<noteq> None" using r(2) k by simp
  ultimately show "\<exists>r \<in> set F. r ! k \<noteq> None" by blast
qed

text \<open>
  C8 (as the code has it). A block that is already clean in the sense of
  \<open>already_clean\<close> is returned unchanged by \<^verbatim>\<open>clean_up_table\<close>.
\<close>

theorem clean_up_table_fixes_clean_block:
  assumes "already_clean b mr mc t"
  shows "clean_up_table b mr mc t = b"
  using assms
  by (simp add: clean_up_table_def already_clean_def Let_def filter_rows_columns_clean
      trim_rows_id trim_cols_id)

theorem clean_up_table_fixes_clean_block_witness:
  "already_clean ex_clean (6 / 10) (6 / 10) 1
   \<and> clean_up_table ex_clean (6 / 10) (6 / 10) 1 = ex_clean"
proof -
  have h: "already_clean ex_clean (6 / 10) (6 / 10) 1"
    by (simp add: already_clean_def ex_clean_def rectangular_def shape1_def le_ratio_def
        na_mean_def column_def blank_pattern_def trailing_run_def)
  show ?thesis using h clean_up_table_fixes_clean_block [OF h] by simp
qed

text \<open>
  C8 (as the claim states it): \<^verbatim>\<open>clean_up_table\<close> would be idempotent on its own
  outputs. The column filter drops the first column of \<open>ex_sparse\<close>, which leaves its first
  row fully blank; one blank row at the edge is within the tolerance and stays, and a
  second run of the cleaner drops it as a row whose blank fraction is 1.
\<close>

theorem clean_up_table_idempotent_counterexample:
  "clean_up_table_default (clean_up_table_default ex_sparse) \<noteq> clean_up_table_default ex_sparse"
  by code_simp

text \<open>
  C9 (as the code has it). With a column threshold below 1 the column-axis trim removes
  nothing: every column the filter keeps has a non-blank cell, and the row-axis trim only
  cuts blank rows. So \<^verbatim>\<open>clean_up_table\<close> is the sparsity filter followed by the
  row-axis trim.
\<close>

theorem clean_up_table_column_trim_removes_nothing:
  assumes "mc < 1"
  shows "clean_up_table table mr mc t = trim_blank_edges (filter_rows_columns table mr mc) True t"
proof -
  let ?F = "filter_rows_columns table mr mc"
  let ?R = "trim_blank_edges ?F True t"
  let ?n = "length (filter (\<lambda>col. le_ratio (na_mean (column (filter (\<lambda>r. le_ratio (na_mean r) mr) table) col)) mc) [0..<shape1 table])"
  have len: "\<And>r. r \<in> set ?R \<Longrightarrow> length r = ?n"
    using filter_rows_columns_dense(1) [OF assms] trim_rows_subset by blast
  have dense: "\<exists>r \<in> set ?R. r ! k \<noteq> None" if "k < ?n" for k
  proof -
    from filter_rows_columns_dense(2) [OF assms that]
    obtain r where r: "r \<in> set ?F" "r ! k \<noteq> None" by blast
    have "length r = ?n" using filter_rows_columns_dense(1) [OF assms r(1)] .
    with that have "r ! k \<in> set r" by simp
    with r(2) have "\<not> list_all (\<lambda>c. c = None) r"
      by (auto simp: list_all_iff)
    then have "r \<in> set ?R" using r(1) by (intro nonblank_row_kept)
    with r(2) show ?thesis by blast
  qed
  have "trim_blank_edges ?R False t = ?R" using len dense by (rule trim_cols_dense)
  then show ?thesis by (simp add: clean_up_table_def Let_def)
qed

theorem clean_up_table_column_trim_removes_nothing_witness:
  "(6 / 10 :: rat) < 1
   \<and> clean_up_table ex_margin (6 / 10) (6 / 10) 1
       = trim_blank_edges (filter_rows_columns ex_margin (6 / 10) (6 / 10)) True 1"
proof -
  have h: "(6 / 10 :: rat) < 1" by simp
  show ?thesis
    using h clean_up_table_column_trim_removes_nothing [OF h, of ex_margin "6 / 10" 1]
    by simp
qed

text \<open>
  C9 (as the claim states it): the cleaner would be the sparsity filter alone. In
  \<open>ex_margin\<close> the two top rows pass the row filter (blank fraction 1/2) and lose their only
  non-blank cells when the column filter drops the first column (blank fraction 4/6);
  the row-axis trim then cuts this run of two blank rows.
\<close>

theorem clean_up_table_is_filter_counterexample:
  "clean_up_table_default ex_margin \<noteq> filter_rows_columns ex_margin (6 / 10) (6 / 10)"
  by code_simp

section \<open>Store replacement and row sums\<close>

text \<open>
  C6. When \<^verbatim>\<open>process_excel_file\<close> raises on the uploaded bytes, whether in the decoder or
  in the segmentation, \<^verbatim>\<open>upload_excel\<close> answers with an error and the store it leaves
  is the store it found, so \<^verbatim>\<open>list_tables\<close> answers as before: \<^verbatim>\<open>db.clear()\<close> is
  only reached after \<^verbatim>\<open>process_excel_file\<close> has returned.
\<close>

theorem upload_failure_keeps_store:
  assumes "process_excel_file read_excel content = Inl e"
  shows "(\<exists>e'. fst (upload_excel read_excel d filename content) = Inl e')
    \<and> snd (upload_excel read_excel d filename content) = d
    \<and> list_tables (snd (upload_excel read_excel d filename content)) = list_tables d"
  using assms by (simp add: upload_excel_def Let_def)

theorem upload_failure_keeps_store_witness:
  "process_excel_file failing_reader ''xx''
     = Inl (DecodeError ''Unsupported format, or corrupt file'')
   \<and> snd (upload_excel failing_reader ex_db ''Book.XLS'' ''xx'') = ex_db
   \<and> list_tables (snd (upload_excel failing_reader ex_db ''Book.XLS'' ''xx''))
       = Inr [''DISCOUNT RATE'']"
proof -
  have h: "process_excel_file failing_reader ''xx''
     = Inl (DecodeError ''Unsupported format, or corrupt file'')"
    by (simp add: process_excel_file_def failing_reader_def)
  have l: "list_tables ex_db = Inr [''DISCOUNT RATE'']"
    by (simp add: list_tables_def ensure_uploaded_def ex_db_def)
  show ?thesis
    using h l upload_failure_keeps_store [OF h, of ex_db "''Book.XLS''"] by simp
qed














section \<open>Boundaries of an anchor\<close>

lemma next_after_set: "set xs = set ys \<Longrightarrow> next_after xs x d = next_after ys x d"
proof -
  assume s: "set xs = set ys"
  have f: "set (filter (\<lambda>y. x < y) xs) = set (filter (\<lambda>y. x < y) ys)" using s by auto
  then have "filter (\<lambda>y. x < y) xs = [] \<longleftrightarrow> filter (\<lambda>y. x < y) ys = []"
    by (metis set_empty)
  with f show ?thesis by (simp add: next_after_def Let_def)
qed

lemma next_after_le: "y \<in> set xs \<Longrightarrow> x < y \<Longrightarrow> next_after xs x d \<le> y"
proof -
  assume a: "y \<in> set xs" "x < y"
  then have m: "y \<in> set (filter (\<lambda>y. x < y) xs)" by simp
  have ne: "filter (\<lambda>y. x < y) xs \<noteq> []" using a by (auto simp: filter_empty_conv)
  have "Min (set (filter (\<lambda>y. x < y) xs)) \<le> y" by (rule Min_le) (use m in auto)
  with ne show ?thesis unfolding next_after_def Let_def by simp
qed

lemma next_after_gt: "x < d \<Longrightarrow> x < next_after xs x d"
proof -
  assume d: "x < d"
  show ?thesis
  proof (cases "filter (\<lambda>y. x < y) xs = []")
    case True
    with d show ?thesis by (simp add: next_after_def)
  next
    case False
    then have "set (filter (\<lambda>y. x < y) xs) \<noteq> {}" by (metis set_empty)
    then have "Min (set (filter (\<lambda>y. x < y) xs)) \<in> set (filter (\<lambda>y. x < y) xs)"
      by (intro Min_in) simp_all
    then have "x < Min (set (filter (\<lambda>y. x < y) xs))" by simp
    with False show ?thesis unfolding next_after_def Let_def by simp
  qed
qed

lemma next_after_Cons_le: "a \<le> x \<Longrightarrow> next_after (a # xs) x d = next_after xs x d"
  by (simp add: next_after_def)

lemma next_after_head:
  assumes "a < b" "\<And>y. y \<in> set xs \<Longrightarrow> b < y"
  shows "next_after (a # b # xs) a d = b"
proof -
  have f: "filter (\<lambda>y. a < y) (a # b # xs) = b # xs"
    using assms by (auto simp: filter_id_conv intro: less_trans)
  have "Min (insert b (set xs)) = b"
    using assms(2) by (intro Min_eqI) (auto intro: less_imp_le)
  then show ?thesis unfolding next_after_def Let_def f by simp
qed

lemma next_after_none: "(\<And>y. y \<in> set xs \<Longrightarrow> y \<le> x) \<Longrightarrow> next_after xs x d = d"
proof -
  assume "\<And>y. y \<in> set xs \<Longrightarrow> y \<le> x"
  then have "filter (\<lambda>y. x < y) xs = []" by (auto simp: filter_empty_conv not_less)
  then show ?thesis by (simp add: next_after_def)
qed

lemma row_boundaries_loop_eq:
  "sorted xs \<Longrightarrow> distinct xs \<Longrightarrow>
   row_boundaries_loop xs tot m x = (if x \<in> set xs then Some (next_after xs x tot) else m x)"
proof (induction xs tot m rule: row_boundaries_loop.induct)
  case (1 tot m)
  show ?case by simp
next
  case (2 this_row tot m)
  show ?case by (simp add: next_after_def)
next
  case (3 this_row next_row rest tot m)
  have lt: "this_row < next_row" using "3.prems" by (auto simp: le_less)
  have above: "\<And>y. y \<in> set rest \<Longrightarrow> next_row < y" using "3.prems" by (auto simp: le_less)
  have s': "sorted (next_row # rest)" "distinct (next_row # rest)"
    using "3.prems" by auto
  have IH: "row_boundaries_loop (next_row # rest) tot (m(this_row \<mapsto> next_row)) x
    = (if x \<in> set (next_row # rest) then Some (next_after (next_row # rest) x tot)
       else (m(this_row \<mapsto> next_row)) x)"
    by (rule "3.IH" [OF s'])
  show ?case
  proof (cases "x = this_row")
    case True
    then have "x \<notin> set (next_row # rest)" using "3.prems" by auto
    with True IH show ?thesis by (simp add: next_after_head [OF lt above])
  next
    case False
    show ?thesis
    proof (cases "x \<in> set (next_row # rest)")
      case True
      then have "this_row \<le> x" using "3.prems" by auto
      with True False IH show ?thesis by (simp add: next_after_Cons_le)
    next
      case False
      with \<open>x \<noteq> this_row\<close> IH show ?thesis by simp
    qed
  qed
qed

lemma set_collect_title_rows:
  "set (collect_title_rows tp acc) = set acc \<union> fst ` set tp"
  by (induction tp acc rule: collect_title_rows.induct) auto

lemma distinct_collect_title_rows:
  "distinct acc \<Longrightarrow> distinct (collect_title_rows tp acc)"
  by (induction tp acc rule: collect_title_rows.induct) auto

lemma calculate_row_boundaries_eq:
  "calculate_row_boundaries tp tot r =
     (if r \<in> fst ` set tp then Some (next_after (map fst tp) r tot) else None)"
proof -
  let ?xs = "sort (collect_title_rows tp [])"
  have s: "set ?xs = fst ` set tp" by (simp add: set_collect_title_rows)
  have "sorted ?xs" "distinct ?xs" by (simp_all add: distinct_collect_title_rows)
  then have "row_boundaries_loop ?xs tot Map.empty r
     = (if r \<in> set ?xs then Some (next_after ?xs r tot) else None)"
    by (simp add: row_boundaries_loop_eq)
  moreover have "next_after ?xs r tot = next_after (map fst tp) r tot"
    by (rule next_after_set) (simp add: set_collect_title_rows)
  moreover have "set (collect_title_rows tp []) = fst ` set tp"
    by (simp add: set_collect_title_rows)
  ultimately show ?thesis by (simp add: calculate_row_boundaries_def)
qed

lemma cols_on_row_Cons:
  "cols_on_row ((r, c, t) # tp) r' = (if r = r' then c # cols_on_row tp r' else cols_on_row tp r')"
  by (simp add: cols_on_row_def)

lemma group_titles_loop_eq:
  "group_titles_loop tp m r =
     (if cols_on_row tp r = [] then m r
      else Some ((case m r of None \<Rightarrow> [] | Some cs \<Rightarrow> cs) @ cols_on_row tp r))"
proof (induction tp m rule: group_titles_loop.induct)
  case (1 m)
  show ?case by (simp add: cols_on_row_def)
next
  case (2 r' c t rest m)
  show ?case by (simp add: "2.IH" cols_on_row_Cons split: option.splits)
qed

lemma group_titles_by_row_eq:
  "group_titles_by_row tp r = (if cols_on_row tp r = [] then None else Some (cols_on_row tp r))"
  by (simp add: group_titles_by_row_def group_titles_loop_eq)

lemma find_segment:
  "sorted cs \<Longrightarrow> distinct cs \<Longrightarrow> c \<in> set cs \<Longrightarrow> c < tot \<Longrightarrow>
   find (\<lambda>(seg_left, seg_right). seg_left \<le> c \<and> c < seg_right) (build_segments cs tot)
     = Some (c, next_after cs c tot)"
proof (induction cs tot rule: build_segments.induct)
  case (1 tot)
  then show ?case by simp
next
  case (2 seg_start tot)
  then show ?case by (simp add: next_after_def)
next
  case (3 seg_start seg_end rest tot)
  have lt: "seg_start < seg_end" using "3.prems" by (auto simp: le_less)
  have above: "\<And>y. y \<in> set rest \<Longrightarrow> seg_end < y" using "3.prems" by (auto simp: le_less)
  show ?case
  proof (cases "c = seg_start")
    case True
    with lt show ?thesis by (simp add: next_after_head [OF lt above])
  next
    case False
    then have mem: "c \<in> set (seg_end # rest)" using "3.prems" by simp
    then have ge: "seg_end \<le> c" using "3.prems" by auto
    have s': "sorted (seg_end # rest)" "distinct (seg_end # rest)"
      using "3.prems" by auto
    have "find (\<lambda>(seg_left, seg_right). seg_left \<le> c \<and> c < seg_right)
            (build_segments (seg_end # rest) tot) = Some (c, next_after (seg_end # rest) c tot)"
      by (rule "3.IH" [OF s' mem "3.prems"(4)])
    moreover have "seg_start \<le> c" using lt ge by simp
    ultimately show ?thesis using ge by (simp add: next_after_Cons_le)
  qed
qed


lemma distinct_cols_on_row:
  assumes "distinct (map position tp)"
  shows "distinct (cols_on_row tp r)"
proof -
  have "distinct (map position (filter (\<lambda>p. fst p = r) tp))"
    using assms by (rule distinct_map_filter)
  moreover have "map position (filter (\<lambda>p. fst p = r) tp)
    = map (Pair r) (cols_on_row tp r)"
    by (induction tp) (auto simp: cols_on_row_def position_def)
  ultimately show ?thesis by (simp add: distinct_map)
qed

lemma mem_cols_on_row: "c \<in> set (cols_on_row tp r) \<longleftrightarrow> (\<exists>t. (r, c, t) \<in> set tp)"
  by (force simp: cols_on_row_def image_iff)

lemma determine_horizontal_boundaries_eq:
  assumes "(r, c, t) \<in> set tp" "distinct (map position tp)" "c < total_cols"
  shows "determine_horizontal_boundaries r c (group_titles_by_row tp) total_cols
    = Inr (if length (cols_on_row tp r) = 1 then (0, total_cols)
           else (c, next_after (cols_on_row tp r) c total_cols))"
proof -
  let ?cs = "cols_on_row tp r"
  have mem: "c \<in> set ?cs" using assms(1) by (auto simp: mem_cols_on_row)
  then have ne: "?cs \<noteq> []" by auto
  have g: "group_titles_by_row tp r = Some ?cs" using ne by (simp add: group_titles_by_row_eq)
  show ?thesis
  proof (cases "length ?cs = 1")
    case True
    then show ?thesis by (simp add: determine_horizontal_boundaries_def g)
  next
    case False
    then have gt: "1 < length (sort ?cs)" using ne by (cases ?cs) auto
    have "find (\<lambda>(seg_left, seg_right). seg_left \<le> c \<and> c < seg_right)
            (build_segments (sort ?cs) total_cols) = Some (c, next_after (sort ?cs) c total_cols)"
      using mem assms(3) distinct_cols_on_row [OF assms(2)] by (intro find_segment) simp_all
    moreover have "next_after (sort ?cs) c total_cols = next_after ?cs c total_cols"
      by (rule next_after_set) simp
    ultimately show ?thesis using False gt
      by (simp add: determine_horizontal_boundaries_def g Let_def)
  qed
qed

text \<open>
  C4. For an anchor at \<open>(r, c)\<close> among title positions with pairwise different cells and
  \<open>c\<close> inside the grid: the row boundary of \<open>r\<close> is the smallest anchor row above \<open>r\<close>, or
  \<open>total_rows\<close> when there is none; the column span is \<open>[0, total_cols)\<close> when the anchor is
  alone on its row, and otherwise runs from \<open>c\<close> to the next title column of the row, or
  to \<open>total_cols\<close> for the last one.
\<close>

theorem anchor_boundaries:
  assumes "(r, c, t) \<in> set tp" "distinct (map position tp)" "c < total_cols"
  shows "calculate_row_boundaries tp total_rows r
           = Some (next_after (map fst tp) r total_rows)
    \<and> determine_horizontal_boundaries r c (group_titles_by_row tp) total_cols
           = Inr (if length (cols_on_row tp r) = 1 then (0, total_cols)
                  else (c, next_after (cols_on_row tp r) c total_cols))"
proof -
  have "r \<in> fst ` set tp" using assms(1) by force
  then show ?thesis
    using determine_horizontal_boundaries_eq [OF assms]
    by (simp add: calculate_row_boundaries_eq)
qed

lemma distinct_example_positions: "distinct (map position ex_sole_title)" "distinct (map position ex_two_titles)"
  by (simp_all add: ex_sole_title_def ex_two_titles_def position_def)

theorem anchor_boundaries_witness:
  "calculate_row_boundaries ex_sole_title 20 5 = Some 12
   \<and> determine_horizontal_boundaries 5 2 (group_titles_by_row ex_sole_title) 8 = Inr (0, 8)
   \<and> calculate_row_boundaries ex_two_titles 20 3 = Some 9
   \<and> determine_horizontal_boundaries 3 0 (group_titles_by_row ex_two_titles) 10 = Inr (0, 5)
   \<and> determine_horizontal_boundaries 3 5 (group_titles_by_row ex_two_titles) 10 = Inr (5, 10)"
proof -
  have a: "(5, 2, ''DISCOUNT RATE'') \<in> set ex_sole_title" by (simp add: ex_sole_title_def)
  have b: "(3, 0, ''DISCOUNT RATE'') \<in> set ex_two_titles" by (simp add: ex_two_titles_def)
  have c: "(3, 5, ''GROWTH RATES'') \<in> set ex_two_titles" by (simp add: ex_two_titles_def)
  have n1: "next_after (map fst ex_sole_title) 5 20 = 12"
    "cols_on_row ex_sole_title 5 = [2]"
    by (simp_all add: next_after_def ex_sole_title_def cols_on_row_def)
  have n2: "next_after (map fst ex_two_titles) 3 20 = 9" "cols_on_row ex_two_titles 3 = [0, 5]"
    "next_after [0, 5] 0 10 = 5" "next_after [0, 5] 5 10 = 10"
    by (simp_all add: next_after_def ex_two_titles_def cols_on_row_def)
  show ?thesis
    using anchor_boundaries [OF a distinct_example_positions(1), of 8 20] anchor_boundaries [OF b distinct_example_positions(2), of 10 20]
      anchor_boundaries [OF c distinct_example_positions(2), of 10 20]
    by (simp add: n1 n2)
qed

end
